theory Spec2Isabelle
  imports Complex_Main "HOL-Library.Multiset" "HOL-Library.Word"
begin

section \<open>Multinomial power analysis: the test statistic and the power estimator\<close>

text \<open>
  The notebook \<^verbatim>\<open>multinomial_power_analysis.ipynb\<close> defines two functions:
  \<^verbatim>\<open>
  def sum_of_relative_squared_differences(x, n, p):
      expect = p * n
      return np.sum((expect - x)**2 / expect)

  def power(p, n, alpha=0.05, p_null=None, nsim=1000):
      k = p.shape[0]
      if p_null is None:
          p_null = np.ones_like(p) / k

      x_sim = sp.stats.multinomial.rvs(n, p, size=nsim)
      df = k - 1
      statistic_sim = np.apply_along_axis(
          lambda y: sum_of_relative_squared_differences(y, n, p_null),
          axis=1,
          arr=x_sim
                                          )
      pvalue_sim = 1 - sp.stats.chi2.cdf(statistic_sim, df)
      return (pvalue_sim < alpha).mean()
  \<close>
  Both work on one-dimensional numpy arrays. The arrays are lists here, the rows of the
  two-dimensional array \<^verbatim>\<open>x_sim\<close> a list of lists.
\<close>

subsection \<open>Numbers\<close>

text \<open>
  A numpy floating-point number is a finite number, one of the two infinities, or NaN.
  In this first arithmetic the finite numbers are the reals and the operations on them are
  exact: it has the special values and the rules that produce them, and neither rounding,
  overflow, underflow nor the sign of zero. It carries the properties that do not depend
  on how a result is rounded: which operations the two functions perform, on what, and
  in which order. The properties that do depend on it are stated on the binary64
  arithmetic further down.
  Division by zero does not raise in numpy (it warns): a non-zero number over zero is an
  infinity and zero over zero is NaN.
\<close>

datatype npfloat = Fin real | PInf | NInf | NaN

fun fneg :: "npfloat \<Rightarrow> npfloat" where
  "fneg (Fin a) = Fin (- a)"
| "fneg PInf = NInf"
| "fneg NInf = PInf"
| "fneg NaN = NaN"

fun fadd :: "npfloat \<Rightarrow> npfloat \<Rightarrow> npfloat" where
  "fadd (Fin a) (Fin b) = Fin (a + b)"
| "fadd NaN _ = NaN"
| "fadd _ NaN = NaN"
| "fadd PInf NInf = NaN"
| "fadd NInf PInf = NaN"
| "fadd PInf _ = PInf"
| "fadd _ PInf = PInf"
| "fadd NInf _ = NInf"
| "fadd _ NInf = NInf"

definition fsub :: "npfloat \<Rightarrow> npfloat \<Rightarrow> npfloat" where
  "fsub a b = fadd a (fneg b)"

text \<open>
  The infinity of a given sign. The sign of a product or quotient follows the signs of its
  operands; zero counts as positive.
\<close>

definition signed_inf :: "bool \<Rightarrow> npfloat" where
  "signed_inf positive = (if positive then PInf else NInf)"

fun fmul :: "npfloat \<Rightarrow> npfloat \<Rightarrow> npfloat" where
  "fmul (Fin a) (Fin b) = Fin (a * b)"
| "fmul NaN _ = NaN"
| "fmul _ NaN = NaN"
| "fmul (Fin a) PInf = (if a = 0 then NaN else signed_inf (0 < a))"
| "fmul (Fin a) NInf = (if a = 0 then NaN else signed_inf (a < 0))"
| "fmul PInf (Fin b) = (if b = 0 then NaN else signed_inf (0 < b))"
| "fmul NInf (Fin b) = (if b = 0 then NaN else signed_inf (b < 0))"
| "fmul PInf PInf = PInf"
| "fmul NInf NInf = PInf"
| "fmul PInf NInf = NInf"
| "fmul NInf PInf = NInf"

fun fdiv :: "npfloat \<Rightarrow> npfloat \<Rightarrow> npfloat" where
  "fdiv (Fin a) (Fin b) =
     (if b \<noteq> 0 then Fin (a / b) else if a = 0 then NaN else signed_inf (0 < a))"
| "fdiv NaN _ = NaN"
| "fdiv _ NaN = NaN"
| "fdiv (Fin a) PInf = Fin 0"
| "fdiv (Fin a) NInf = Fin 0"
| "fdiv PInf (Fin b) = signed_inf (0 \<le> b)"
| "fdiv NInf (Fin b) = signed_inf (b < 0)"
| "fdiv PInf PInf = NaN"
| "fdiv PInf NInf = NaN"
| "fdiv NInf PInf = NaN"
| "fdiv NInf NInf = NaN"

text \<open>\<^verbatim>\<open>a ** 2\<close> on a float array is the square of each entry.\<close>

definition fsq :: "npfloat \<Rightarrow> npfloat" where
  "fsq a = fmul a a"

text \<open>\<^verbatim>\<open>a < b\<close>: every comparison with NaN is false.\<close>

fun flt :: "npfloat \<Rightarrow> npfloat \<Rightarrow> bool" where
  "flt (Fin a) (Fin b) = (a < b)"
| "flt NaN _ = False"
| "flt _ NaN = False"
| "flt NInf NInf = False"
| "flt NInf _ = True"
| "flt _ NInf = False"
| "flt PInf _ = False"
| "flt _ PInf = True"

text \<open>An integer (a count, the sample size) enters float arithmetic as its value.\<close>

definition of_count :: "int \<Rightarrow> npfloat" where
  "of_count i = Fin (real_of_int i)"

fun is_finite :: "npfloat \<Rightarrow> bool" where
  "is_finite (Fin a) = True"
| "is_finite _ = False"

subsection \<open>Arrays\<close>

text \<open>
  What numpy raises: an elementwise operation on two one-dimensional arrays whose
  lengths differ, neither being 1, raises \<^verbatim>\<open>ValueError\<close> (operands could not be
  broadcast together); \<^verbatim>\<open>np.apply_along_axis\<close> on an array with no rows raises
  \<^verbatim>\<open>ValueError\<close> (cannot apply along axis when an iteration dimension is 0).
  \<open>RvsError\<close> is a failure of the sampling primitive, whatever it is.
\<close>

datatype error = BroadcastError | EmptyIterationError | RvsError

definition broadcast2 :: "('a \<Rightarrow> 'b \<Rightarrow> 'c) \<Rightarrow> 'a list \<Rightarrow> 'b list \<Rightarrow> error + 'c list" where
  "broadcast2 f xs ys =
     (if length xs = length ys then Inr (map2 f xs ys)
      else if length xs = 1 then Inr (map (f (hd xs)) ys)
      else if length ys = 1 then Inr (map (\<lambda>x. f x (hd ys)) xs)
      else Inl BroadcastError)"

text \<open>\<^verbatim>\<open>np.sum\<close>: the entries added up from \<open>0.0\<close>.\<close>

definition np_sum :: "npfloat list \<Rightarrow> npfloat" where
  "np_sum xs = foldl fadd (Fin 0) xs"

text \<open>\<^verbatim>\<open>np.ones_like(p)\<close>: an array of ones of the shape of \<open>p\<close>.\<close>

definition ones_like :: "npfloat list \<Rightarrow> npfloat list" where
  "ones_like p = map (\<lambda>_. Fin 1) p"

text \<open>
  \<^verbatim>\<open>np.apply_along_axis(f, axis=1, arr)\<close> calls \<open>f\<close> on the rows in order; the
  first row that raises ends the call.
\<close>

fun apply_rows :: "('a \<Rightarrow> error + 'b) \<Rightarrow> 'a list \<Rightarrow> error + 'b list" where
  "apply_rows f [] = Inr []"
| "apply_rows f (r # rs) =
     (case f r of
        Inl e \<Rightarrow> Inl e
      | Inr v \<Rightarrow> (case apply_rows f rs of Inl e \<Rightarrow> Inl e | Inr vs \<Rightarrow> Inr (v # vs)))"

definition apply_along_axis :: "('a \<Rightarrow> error + 'b) \<Rightarrow> 'a list \<Rightarrow> error + 'b list" where
  "apply_along_axis f arr = (if arr = [] then Inl EmptyIterationError else apply_rows f arr)"

text \<open>
  \<^verbatim>\<open>.mean()\<close> of a boolean array: the entries as 1.0 and 0.0, added up, over their
  number; NaN on an empty array.
\<close>

definition mean_bool :: "bool list \<Rightarrow> npfloat" where
  "mean_bool bs =
     (if bs = [] then NaN
      else Fin (sum_list (map (\<lambda>b. if b then 1 else 0) bs) / real (length bs)))"

subsection \<open>The test statistic\<close>

definition sum_of_relative_squared_differences ::
  "int list \<Rightarrow> int \<Rightarrow> npfloat list \<Rightarrow> error + npfloat" where
  "sum_of_relative_squared_differences x n p =
     (let expect = map (\<lambda>p_i. fmul p_i (of_count n)) p in
      case broadcast2 fsub expect (map of_count x) of
        Inl e \<Rightarrow> Inl e
      | Inr d \<Rightarrow>
          (case broadcast2 fdiv (map fsq d) expect of
             Inl e \<Rightarrow> Inl e
           | Inr q \<Rightarrow> Inr (np_sum q)))"

subsection \<open>The power estimator\<close>

text \<open>
  The two library primitives are parameters. \<^verbatim>\<open>sp.stats.multinomial.rvs(n, p, size)\<close>
  reads and advances numpy's global random generator: here it takes the generator's
  state and returns the rows drawn (or its failure) with the state it leaves.
  \<^verbatim>\<open>sp.stats.chi2.cdf(s, df)\<close> is a function of the statistic and the degrees of
  freedom, applied to each entry of the array.
\<close>

type_synonym 'g sampler = "'g \<Rightarrow> int \<Rightarrow> npfloat list \<Rightarrow> int \<Rightarrow> (error + int list list) \<times> 'g"

type_synonym chi2_cdf = "npfloat \<Rightarrow> int \<Rightarrow> npfloat"

definition power ::
  "'g sampler \<Rightarrow> chi2_cdf \<Rightarrow> 'g \<Rightarrow>
   npfloat list \<Rightarrow> int \<Rightarrow> npfloat \<Rightarrow> npfloat list option \<Rightarrow> int \<Rightarrow> (error + npfloat) \<times> 'g" where
  "power rvs cdf g p n alpha p_null nsim =
     (let k = length p;
          p_null' = (case p_null of
                       None \<Rightarrow> map (\<lambda>one. fdiv one (Fin (real k))) (ones_like p)
                     | Some q \<Rightarrow> q);
          (drawn, g') = rvs g n p nsim
      in case drawn of
           Inl e \<Rightarrow> (Inl e, g')
         | Inr x_sim \<Rightarrow>
             (let df = int k - 1 in
              case apply_along_axis
                     (\<lambda>y. sum_of_relative_squared_differences y n p_null') x_sim of
                Inl e \<Rightarrow> (Inl e, g')
              | Inr statistic_sim \<Rightarrow>
                  (let pvalue_sim = map (\<lambda>s. fsub (Fin 1) (cdf s df)) statistic_sim
                   in (Inr (mean_bool (map (\<lambda>v. flt v alpha) pvalue_sim)), g'))))"

subsection \<open>The terms of the statistic, by category\<close>

text \<open>
  The expected count of category \<open>i\<close> and its relative squared difference, in float
  arithmetic and, for finite probabilities and a non-zero expected count, as real numbers.
\<close>

definition expected :: "npfloat list \<Rightarrow> int \<Rightarrow> nat \<Rightarrow> npfloat" where
  "expected p n i = fmul (p ! i) (of_count n)"

definition relative_squared_difference ::
  "int list \<Rightarrow> int \<Rightarrow> npfloat list \<Rightarrow> nat \<Rightarrow> npfloat" where
  "relative_squared_difference x n p i =
     fdiv (fsq (fsub (expected p n i) (of_count (x ! i)))) (expected p n i)"

definition rsd_real :: "int list \<Rightarrow> int \<Rightarrow> real list \<Rightarrow> nat \<Rightarrow> real" where
  "rsd_real x n pr i =
     (pr ! i * real_of_int n - real_of_int (x ! i))\<^sup>2 / (pr ! i * real_of_int n)"

text \<open>
  A permutation of the category indices is a list \<open>perm\<close> holding each index below
  \<open>k\<close> once; \<^verbatim>\<open>x[perm]\<close> is the array whose entry \<open>j\<close> is \<open>x[perm[j]]\<close>.
\<close>

definition permute :: "nat list \<Rightarrow> 'a list \<Rightarrow> 'a list" where
  "permute perm xs = map (\<lambda>j. xs ! j) perm"

subsection \<open>The two functions as the specification words them\<close>

text \<open>
  The statistic as the sum over the categories of the relative squared differences, and
  the estimator on the rows drawn: the statistic of each row against the null vector, each
  statistic turned into the p-value \<open>1 - ChiSquaredCDF(statistic, df = k - 1)\<close>, and the
  fraction of the \<open>nsim\<close> p-values strictly below \<open>alpha\<close>.
\<close>

definition TestStatistic_spec :: "int list \<Rightarrow> int \<Rightarrow> npfloat list \<Rightarrow> npfloat" where
  "TestStatistic_spec x n p = np_sum (map (relative_squared_difference x n p) [0..<length p])"

definition PowerEstimator_spec ::
  "chi2_cdf \<Rightarrow> nat \<Rightarrow> int \<Rightarrow> npfloat \<Rightarrow> npfloat list \<Rightarrow> int list list \<Rightarrow> int \<Rightarrow> npfloat" where
  "PowerEstimator_spec cdf k n alpha p_null x_sim nsim =
     (let statistics = map (\<lambda>x. TestStatistic_spec x n p_null) x_sim;
          pvalues = map (\<lambda>statistic. fsub (Fin 1) (cdf statistic (int k - 1))) statistics
      in Fin (real (length (filter (\<lambda>pvalue. flt pvalue alpha) pvalues)) / real_of_int nsim))"

subsection \<open>A generator and a distribution function to run the estimator on\<close>

text \<open>
  Seen from outside, the state of a random generator is the sequence of rows it will
  draw: \<open>tape_rvs\<close> hands out the next \<open>nsim\<close> rows of that sequence and keeps the
  rest (it fails when \<open>nsim\<close> is negative, or the tape too short).

  \<open>step_cdf crit\<close> is the distribution function of the point mass at \<open>crit\<close>. At
  \<open>crit = 7.815\<close>, the 0.95 quantile of the chi-squared distribution with 3 degrees of
  freedom, the p-value it gives is below 0.05 for the same statistics as the chi-squared
  one with 3 degrees of freedom.
\<close>

definition tape_rvs :: "(int list list) sampler" where
  "tape_rvs g n p nsim =
     (if 0 \<le> nsim \<and> nat nsim \<le> length g then (Inr (take (nat nsim) g), drop (nat nsim) g)
      else (Inl RvsError, g))"

definition step_cdf :: "real \<Rightarrow> chi2_cdf" where
  "step_cdf crit s df = (if s = NaN then NaN else if flt s (Fin crit) then Fin 0 else Fin 1)"

subsection \<open>Binary floating point\<close>

text \<open>
  The arithmetic above is exact on finite numbers. Where a property depends on rounding,
  overflow or underflow the statistic is taken in IEEE binary64, the arithmetic of a numpy
  \<^verbatim>\<open>float64\<close>: every operation returns the exact result rounded to the nearest
  number with a 53-bit significand and an exponent between \<open>-1074\<close> and \<open>971\<close>,
  ties to the even significand; results of magnitude \<open>2^1024\<close> or more after rounding
  are infinite, results that round to nothing are zero, and zero has a sign.
  \<open>Double 0\<close> is \<open>+0.0\<close> and \<open>NegZero\<close> is \<open>-0.0\<close>.
\<close>

datatype f64 = Double real | NegZero | PosInf | NegInf | NotANumber

text \<open>The number of binary digits of a natural number.\<close>

fun bit_length :: "nat \<Rightarrow> int" where
  "bit_length n = (if n = 0 then 0 else bit_length (n div 2) + 1)"

declare bit_length.simps [simp del]

primrec num_bits :: "num \<Rightarrow> int" where
  "num_bits num.One = 1"
| "num_bits (num.Bit0 k) = num_bits k + 1"
| "num_bits (num.Bit1 k) = num_bits k + 1"

text \<open>For \<open>a > 0\<close>, the integer \<open>k\<close> with \<open>2^k \<le> a < 2^(k+1)\<close>.\<close>

definition floor_log2 :: "real \<Rightarrow> int" where
  "floor_log2 a =
     (if 1 \<le> a then bit_length (nat \<lfloor>a\<rfloor>) - 1
      else - bit_length (nat (\<lceil>1 / a\<rceil> - 1)))"

definition pow2 :: "int \<Rightarrow> real" where
  "pow2 e = (if 0 \<le> e then 2 ^ nat e else 1 / 2 ^ nat (- e))"

definition round_half_even :: "real \<Rightarrow> int" where
  "round_half_even q =
     (let f = \<lfloor>q\<rfloor>; d = q - of_int f
      in if d < 1/2 then f else if 1/2 < d then f + 1 else if even f then f else f + 1)"

definition zero64 :: "bool \<Rightarrow> f64" where
  "zero64 neg = (if neg then NegZero else Double 0)"

definition inf64 :: "bool \<Rightarrow> f64" where
  "inf64 neg = (if neg then NegInf else PosInf)"

text \<open>
  The exponent of the last place of the significand of a magnitude \<open>a\<close>: \<open>-1074\<close>
  for the subnormal numbers (below \<open>2^(-1022)\<close>).
\<close>

definition exponent64 :: "real \<Rightarrow> int" where
  "exponent64 a = (if a < pow2 (- 1022) then - 1074 else floor_log2 a - 52)"

definition finish64 :: "bool \<Rightarrow> int \<Rightarrow> int \<Rightarrow> f64" where
  "finish64 neg m e =
     (if m = 0 then zero64 neg
      else if pow2 1024 \<le> of_int m * pow2 e then inf64 neg
      else Double (if neg then - (of_int m * pow2 e) else of_int m * pow2 e))"

definition round64 :: "real \<Rightarrow> f64" where
  "round64 r =
     finish64 (r < 0) (round_half_even (\<bar>r\<bar> / pow2 (exponent64 \<bar>r\<bar>))) (exponent64 \<bar>r\<bar>)"

fun is_nan64 :: "f64 \<Rightarrow> bool" where
  "is_nan64 NotANumber = True"
| "is_nan64 _ = False"

fun is_inf64 :: "f64 \<Rightarrow> bool" where
  "is_inf64 PosInf = True"
| "is_inf64 NegInf = True"
| "is_inf64 _ = False"

fun is_zero64 :: "f64 \<Rightarrow> bool" where
  "is_zero64 (Double a) = (a = 0)"
| "is_zero64 NegZero = True"
| "is_zero64 _ = False"

fun is_finite64 :: "f64 \<Rightarrow> bool" where
  "is_finite64 (Double a) = True"
| "is_finite64 NegZero = True"
| "is_finite64 _ = False"

fun negative64 :: "f64 \<Rightarrow> bool" where
  "negative64 (Double a) = (a < 0)"
| "negative64 NegZero = True"
| "negative64 NegInf = True"
| "negative64 _ = False"

text \<open>\<^verbatim>\<open>v > 0\<close>.\<close>

fun positive64 :: "f64 \<Rightarrow> bool" where
  "positive64 (Double a) = (0 < a)"
| "positive64 PosInf = True"
| "positive64 _ = False"

fun value64 :: "f64 \<Rightarrow> real" where
  "value64 (Double a) = a"
| "value64 _ = 0"

fun fneg64 :: "f64 \<Rightarrow> f64" where
  "fneg64 (Double a) = (if a = 0 then NegZero else Double (- a))"
| "fneg64 NegZero = Double 0"
| "fneg64 PosInf = NegInf"
| "fneg64 NegInf = PosInf"
| "fneg64 NotANumber = NotANumber"

definition fadd64 :: "f64 \<Rightarrow> f64 \<Rightarrow> f64" where
  "fadd64 a b =
     (if is_nan64 a \<or> is_nan64 b then NotANumber
      else if is_inf64 a
        then (if is_inf64 b \<and> negative64 a \<noteq> negative64 b then NotANumber else a)
      else if is_inf64 b then b
      else if value64 a + value64 b = 0
        then zero64 (is_zero64 a \<and> is_zero64 b \<and> negative64 a \<and> negative64 b)
      else round64 (value64 a + value64 b))"

definition fsub64 :: "f64 \<Rightarrow> f64 \<Rightarrow> f64" where
  "fsub64 a b = fadd64 a (fneg64 b)"

definition fmul64 :: "f64 \<Rightarrow> f64 \<Rightarrow> f64" where
  "fmul64 a b =
     (if is_nan64 a \<or> is_nan64 b then NotANumber
      else if (is_inf64 a \<and> is_zero64 b) \<or> (is_zero64 a \<and> is_inf64 b) then NotANumber
      else if is_inf64 a \<or> is_inf64 b then inf64 (negative64 a \<noteq> negative64 b)
      else if is_zero64 a \<or> is_zero64 b then zero64 (negative64 a \<noteq> negative64 b)
      else round64 (value64 a * value64 b))"

definition fdiv64 :: "f64 \<Rightarrow> f64 \<Rightarrow> f64" where
  "fdiv64 a b =
     (if is_nan64 a \<or> is_nan64 b then NotANumber
      else if (is_inf64 a \<and> is_inf64 b) \<or> (is_zero64 a \<and> is_zero64 b) then NotANumber
      else if is_inf64 a \<or> is_zero64 b then inf64 (negative64 a \<noteq> negative64 b)
      else if is_inf64 b \<or> is_zero64 a then zero64 (negative64 a \<noteq> negative64 b)
      else round64 (value64 a / value64 b))"

definition fsq64 :: "f64 \<Rightarrow> f64" where
  "fsq64 a = fmul64 a a"

text \<open>
  The counts are the entries of an \<^verbatim>\<open>int64\<close> array, converted to the nearest
  float. The sample size is a Python integer: it converts to the nearest float, and the
  conversion raises \<^verbatim>\<open>OverflowError\<close> when that is not finite.
\<close>

definition of_count64 :: "64 word \<Rightarrow> f64" where
  "of_count64 c = round64 (real_of_int (sint c))"

datatype failure = ValueError error | OverflowError

definition of_pyint :: "int \<Rightarrow> failure + f64" where
  "of_pyint n =
     (if is_inf64 (round64 (real_of_int n)) then Inl OverflowError
      else Inr (round64 (real_of_int n)))"

text \<open>
  \<^verbatim>\<open>np.sum\<close> on a float array is numpy's pairwise summation, added to the initial
  value \<open>0.0\<close>: fewer than 8 entries are added up from left to right; up to 128 entries
  are added into 8 accumulators (entry \<open>i\<close> into accumulator \<open>i mod 8\<close>), the
  accumulators are added up as a balanced tree and the entries after the last full block
  of 8 are added to that from left to right; a longer array is split (at a multiple of 8
  near the middle) and the sums of the two parts are added.
\<close>

definition sum8 :: "f64 list \<Rightarrow> f64" where
  "sum8 r =
     fadd64 (fadd64 (fadd64 (r ! 0) (r ! 1)) (fadd64 (r ! 2) (r ! 3)))
            (fadd64 (fadd64 (r ! 4) (r ! 5)) (fadd64 (r ! 6) (r ! 7)))"

fun accumulate8 :: "f64 list \<Rightarrow> f64 list \<Rightarrow> f64 list" where
  "accumulate8 r xs =
     (if length xs < 8 then r else accumulate8 (map2 fadd64 r (take 8 xs)) (drop 8 xs))"

declare accumulate8.simps [simp del]

definition split_point :: "nat \<Rightarrow> nat" where
  "split_point n = n div 2 - (n div 2) mod 8"

function pairwise_sum :: "f64 list \<Rightarrow> f64" where
  "pairwise_sum xs =
     (if length xs < 8 then foldl fadd64 (Double 0) xs
      else if length xs \<le> 128 then
        foldl fadd64
          (sum8 (accumulate8 (take 8 xs) (drop 8 (take (length xs - length xs mod 8) xs))))
          (drop (length xs - length xs mod 8) xs)
      else fadd64 (pairwise_sum (take (split_point (length xs)) xs))
                  (pairwise_sum (drop (split_point (length xs)) xs)))"
  by pat_completeness auto

termination
  by (relation "measure length") (auto simp add: split_point_def)

declare pairwise_sum.simps [simp del]

definition np_sum64 :: "f64 list \<Rightarrow> f64" where
  "np_sum64 xs = fadd64 (Double 0) (pairwise_sum xs)"

text \<open>The statistic in binary64.\<close>

definition ssrd64 :: "64 word list \<Rightarrow> int \<Rightarrow> f64 list \<Rightarrow> failure + f64" where
  "ssrd64 x n p =
     (case of_pyint n of
        Inl e \<Rightarrow> Inl e
      | Inr nf \<Rightarrow>
          (case broadcast2 fsub64 (map (\<lambda>p_i. fmul64 p_i nf) p) (map of_count64 x) of
             Inl e \<Rightarrow> Inl (ValueError e)
           | Inr d \<Rightarrow>
               (case broadcast2 fdiv64 (map fsq64 d) (map (\<lambda>p_i. fmul64 p_i nf) p) of
                  Inl e \<Rightarrow> Inl (ValueError e)
                | Inr q \<Rightarrow> Inr (np_sum64 q))))"

text \<open>The expected count and the term of category \<open>i\<close>, \<open>nf\<close> the sample size as a float.\<close>

definition expected64 :: "f64 list \<Rightarrow> f64 \<Rightarrow> nat \<Rightarrow> f64" where
  "expected64 p nf i = fmul64 (p ! i) nf"

definition term64 :: "64 word list \<Rightarrow> f64 \<Rightarrow> f64 list \<Rightarrow> nat \<Rightarrow> f64" where
  "term64 x nf p i =
     fdiv64 (fsq64 (fsub64 (expected64 p nf i) (of_count64 (x ! i)))) (expected64 p nf i)"

definition terms64 :: "64 word list \<Rightarrow> f64 \<Rightarrow> f64 list \<Rightarrow> f64 list" where
  "terms64 x nf p = map (term64 x nf p) [0..<length p]"

subsection \<open>A rejected trial\<close>

text \<open>
  A simulated trial \<open>x\<close> is rejected when its p-value, \<open>1\<close> minus the distribution
  function at its statistic and \<open>k - 1\<close> degrees of freedom, is below \<open>alpha\<close>.
\<close>

definition rejects ::
  "chi2_cdf \<Rightarrow> nat \<Rightarrow> int \<Rightarrow> npfloat \<Rightarrow> npfloat list \<Rightarrow> int list \<Rightarrow> bool" where
  "rejects cdf k n alpha p_null x =
     flt (fsub (Fin 1) (cdf (TestStatistic_spec x n p_null) (int k - 1))) alpha"

section \<open>Properties of the test statistic\<close>

subsection \<open>The vectorised computation, category by category\<close>

lemma broadcast2_same_length:
  assumes len: "length xs = length ys"
  shows "broadcast2 f xs ys = Inr (map (\<lambda>i. f (xs ! i) (ys ! i)) [0..<length xs])"
proof -
  have "map2 f xs ys = map (\<lambda>i. f (xs ! i) (ys ! i)) [0..<length xs]"
    by (rule nth_equalityI) (simp_all add: len)
  then show ?thesis
    by (simp add: broadcast2_def len)
qed

lemma ssrd_by_index:
  assumes "length x = length p"
  shows "sum_of_relative_squared_differences x n p =
         Inr (np_sum (map (relative_squared_difference x n p) [0..<length p]))"
proof -
  let ?e = "map (\<lambda>p_i. fmul p_i (of_count n)) p"
  let ?d = "map (\<lambda>i. fsub (expected p n i) (of_count (x ! i))) [0..<length p]"
  have d: "broadcast2 fsub ?e (map of_count x) = Inr ?d"
    using assms by (simp add: broadcast2_same_length expected_def)
  have q: "broadcast2 fdiv (map fsq ?d) ?e =
           Inr (map (relative_squared_difference x n p) [0..<length p])"
    by (simp add: broadcast2_same_length expected_def relative_squared_difference_def)
  show ?thesis
    unfolding sum_of_relative_squared_differences_def Let_def d using q by simp
qed

lemma foldl_fadd_Fin: "foldl fadd (Fin a) (map Fin rs) = Fin (a + sum_list rs)"
  by (induction rs arbitrary: a) (simp_all add: add.assoc)

lemma np_sum_Fin: "np_sum (map Fin rs) = Fin (sum_list rs)"
  by (simp add: np_sum_def foldl_fadd_Fin)

lemma rsd_finite:
  assumes "i < length pr" "pr ! i * real_of_int n \<noteq> 0"
  shows "relative_squared_difference x n (map Fin pr) i = Fin (rsd_real x n pr i)"
  using assms
  by (simp add: relative_squared_difference_def expected_def of_count_def fsub_def fsq_def
      rsd_real_def power2_eq_square)

lemma ssrd_real_list:
  assumes "length x = length pr" "\<forall>i<length pr. pr ! i * real_of_int n \<noteq> 0"
  shows "sum_of_relative_squared_differences x n (map Fin pr) =
         Inr (Fin (sum_list (map (rsd_real x n pr) [0..<length pr])))"
proof -
  have "map (relative_squared_difference x n (map Fin pr)) [0..<length pr] =
        map Fin (map (rsd_real x n pr) [0..<length pr])"
    using assms(2) by (simp add: rsd_finite)
  then have "np_sum (map (relative_squared_difference x n (map Fin pr)) [0..<length pr]) =
        Fin (sum_list (map (rsd_real x n pr) [0..<length pr]))"
    by (simp only: np_sum_Fin)
  then show ?thesis
    using ssrd_by_index[of x "map Fin pr" n] assms(1) by simp
qed

lemma ssrd_real:
  assumes "length x = length pr" "\<forall>i<length pr. pr ! i * real_of_int n \<noteq> 0"
  shows "sum_of_relative_squared_differences x n (map Fin pr) =
         Inr (Fin (\<Sum>i<length pr. rsd_real x n pr i))"
  using ssrd_real_list[OF assms]
  by (simp add: interv_sum_list_conv_sum_set_nat atLeast0LessThan)

text \<open>
  Lengths that do not broadcast end the call; a probability vector of length 1 broadcasts
  against the counts.
\<close>

lemma ssrd_broadcast_examples:
  "sum_of_relative_squared_differences [1, 2, 3] 6 [Fin (1/2), Fin (1/2)] = Inl BroadcastError"
  "sum_of_relative_squared_differences [1, 3] 4 [Fin (1/2)] = Inr (Fin 1)"
  by (simp_all add: sum_of_relative_squared_differences_def broadcast2_def np_sum_def
      of_count_def fsub_def fsq_def)

text \<open>
  C1. For a count vector \<open>x\<close>, a sample size \<open>n\<close> and a probability vector \<open>p\<close> of
  the same length \<open>k\<close>, the statistic returns the sum over the categories \<open>i\<close> of
  \<open>(expected_i - x_i)\<^sup>2 / expected_i\<close>, where \<open>expected_i = p_i * n\<close>: the float
  sum of the float terms in general, and the real sum
  \<open>\<Sum>i<k. (p_i * n - x_i)\<^sup>2 / (p_i * n)\<close> when the probabilities are finite and
  no expected count is zero.
\<close>

theorem ssrd_is_sum_of_relative_squared_differences:
  assumes "length x = length p"
  shows "sum_of_relative_squared_differences x n p =
           Inr (np_sum (map (\<lambda>i. fdiv (fsq (fsub (expected p n i) (of_count (x ! i))))
                                    (expected p n i)) [0..<length p])) \<and>
         (\<forall>pr. p = map Fin pr \<and> (\<forall>i<length pr. pr ! i * real_of_int n \<noteq> 0) \<longrightarrow>
            sum_of_relative_squared_differences x n p =
              Inr (Fin (\<Sum>i<length pr.
                 (pr ! i * real_of_int n - real_of_int (x ! i))\<^sup>2 / (pr ! i * real_of_int n))))"
proof (intro conjI allI impI)
  have "relative_squared_difference x n p =
        (\<lambda>i. fdiv (fsq (fsub (expected p n i) (of_count (x ! i)))) (expected p n i))"
    by (rule ext) (simp add: relative_squared_difference_def)
  then show "sum_of_relative_squared_differences x n p =
           Inr (np_sum (map (\<lambda>i. fdiv (fsq (fsub (expected p n i) (of_count (x ! i))))
                                    (expected p n i)) [0..<length p]))"
    using ssrd_by_index[OF assms, of n] by simp
next
  fix pr
  assume h: "p = map Fin pr \<and> (\<forall>i<length pr. pr ! i * real_of_int n \<noteq> 0)"
  then have "length x = length pr"
    using assms by simp
  then have "sum_of_relative_squared_differences x n (map Fin pr) =
         Inr (Fin (\<Sum>i<length pr. rsd_real x n pr i))"
    using h by (intro ssrd_real) simp_all
  then show "sum_of_relative_squared_differences x n p =
              Inr (Fin (\<Sum>i<length pr.
                 (pr ! i * real_of_int n - real_of_int (x ! i))\<^sup>2 / (pr ! i * real_of_int n)))"
    using h by (simp add: rsd_real_def)
qed

theorem ssrd_is_sum_of_relative_squared_differences_witness:
  "length [3, 1 :: int] = length [Fin (1/2), Fin (1/2)] \<and>
   sum_of_relative_squared_differences [3, 1] 4 [Fin (1/2), Fin (1/2)] = Inr (Fin 1)"
  using ssrd_is_sum_of_relative_squared_differences [of "[3, 1]" "[Fin (1/2), Fin (1/2)]" 4]
  by (simp add: np_sum_def expected_def of_count_def fsub_def fsq_def upt_rec)

text \<open>
  C6. On \<open>x = [1,1,0,0]\<close>, \<open>n = 2\<close>, \<open>p = [0.25,0.25,0.25,0.25]\<close> the statistic is
  \<open>2.0\<close>, and on \<open>x = [2,0,0,0]\<close> with the same \<open>n\<close> and \<open>p\<close> it is \<open>6.0\<close>.
  (Every intermediate value, 0.5, 0.25, 2.25, 4.5 and the partial sums, is a binary
  fraction, so no rounding occurs in the floating-point computation either.)
\<close>

theorem ssrd_concrete_cases:
  "sum_of_relative_squared_differences [1, 1, 0, 0] 2
     [Fin (1/4), Fin (1/4), Fin (1/4), Fin (1/4)] = Inr (Fin 2) \<and>
   sum_of_relative_squared_differences [2, 0, 0, 0] 2
     [Fin (1/4), Fin (1/4), Fin (1/4), Fin (1/4)] = Inr (Fin 6)"
  by (simp add: sum_of_relative_squared_differences_def broadcast2_def np_sum_def
      of_count_def fsub_def fsq_def)

subsection \<open>Exact arithmetic\<close>

text \<open>
  Over the exact arithmetic, with positive expected counts, the statistic is \<open>0\<close> exactly
  when every count equals its expected count, and it does not change when the categories
  are permuted. Both are facts about sums of real numbers; neither survives rounding, as
  the binary64 counterexamples below show.
\<close>

lemma rsd_real_nonneg: "0 < pr ! i * real_of_int n \<Longrightarrow> 0 \<le> rsd_real x n pr i"
  by (simp add: rsd_real_def)

lemma rsd_real_eq_0_iff:
  "0 < pr ! i * real_of_int n \<Longrightarrow>
   rsd_real x n pr i = 0 \<longleftrightarrow> real_of_int (x ! i) = pr ! i * real_of_int n"
  by (auto simp add: rsd_real_def)

lemma ssrd_exact_zero_iff:
  assumes "length x = length pr" "\<forall>i<length pr. 0 < pr ! i * real_of_int n"
  shows "sum_of_relative_squared_differences x n (map Fin pr) = Inr (Fin 0) \<longleftrightarrow>
         (\<forall>i<length pr. real_of_int (x ! i) = pr ! i * real_of_int n)"
proof -
  have nz: "\<forall>i<length pr. pr ! i * real_of_int n \<noteq> 0"
    using assms(2) by fastforce
  have "(\<Sum>i<length pr. rsd_real x n pr i) = 0 \<longleftrightarrow>
        (\<forall>i\<in>{..<length pr}. rsd_real x n pr i = 0)"
    using assms(2) by (intro sum_nonneg_eq_0_iff) (simp_all add: rsd_real_nonneg)
  also have "\<dots> \<longleftrightarrow> (\<forall>i<length pr. real_of_int (x ! i) = pr ! i * real_of_int n)"
    using assms(2) by (auto simp add: rsd_real_eq_0_iff)
  finally show ?thesis
    by (simp add: ssrd_real[OF assms(1) nz])
qed

lemma rsd_real_permute:
  assumes "i < length perm" "perm ! i < length pr" "length x = length pr"
  shows "rsd_real (permute perm x) n (permute perm pr) i = rsd_real x n pr (perm ! i)"
  using assms by (simp add: rsd_real_def permute_def)

lemma ssrd_exact_permutation_invariant:
  assumes len: "length x = length pr"
    and perm: "mset perm = mset [0..<length pr]"
    and pos: "\<forall>i<length pr. 0 < pr ! i * real_of_int n"
  shows "sum_of_relative_squared_differences (permute perm x) n (map Fin (permute perm pr)) =
         sum_of_relative_squared_differences x n (map Fin pr)"
proof -
  have sp: "set perm = {0..<length pr}"
    using perm by (metis mset_eq_setD set_upt)
  have in_range: "\<And>i. i < length perm \<Longrightarrow> perm ! i < length pr"
    using sp by (metis atLeastLessThan_iff nth_mem)
  have nz: "\<forall>i<length pr. pr ! i * real_of_int n \<noteq> 0"
    using pos by fastforce
  have nz': "\<forall>i<length (permute perm pr). permute perm pr ! i * real_of_int n \<noteq> 0"
  proof (intro allI impI)
    fix i
    assume "i < length (permute perm pr)"
    then have i: "i < length perm"
      by (simp add: permute_def)
    then have "pr ! (perm ! i) * real_of_int n \<noteq> 0"
      using nz in_range by blast
    then show "permute perm pr ! i * real_of_int n \<noteq> 0"
      using i by (simp add: permute_def del: mult_eq_0_iff)
  qed
  have len': "length (permute perm x) = length (permute perm pr)"
    by (simp add: permute_def)
  have "map (rsd_real (permute perm x) n (permute perm pr)) [0..<length perm] =
        map (\<lambda>i. rsd_real x n pr (perm ! i)) [0..<length perm]"
    using in_range len by (simp add: rsd_real_permute)
  also have "\<dots> = map (rsd_real x n pr) (map ((!) perm) [0..<length perm])"
    by simp
  also have "\<dots> = map (rsd_real x n pr) perm"
    by (simp only: map_nth)
  finally have "sum_list (map (rsd_real (permute perm x) n (permute perm pr)) [0..<length perm]) =
        sum_mset (image_mset (rsd_real x n pr) (mset perm))"
    by (simp add: sum_mset_sum_list[symmetric] del: sum_mset_sum_list)
  also have "\<dots> = sum_list (map (rsd_real x n pr) [0..<length pr])"
    unfolding perm by (simp add: sum_mset_sum_list[symmetric] del: sum_mset_sum_list)
  finally have "sum_list (map (rsd_real (permute perm x) n (permute perm pr))
                   [0..<length (permute perm pr)]) =
                sum_list (map (rsd_real x n pr) [0..<length pr])"
    by (simp add: permute_def)
  then show ?thesis
    by (simp only: ssrd_real_list[OF len' nz'] ssrd_real_list[OF len nz])
qed

section \<open>The test statistic in binary64\<close>

subsection \<open>Evaluating the rounding\<close>

text \<open>The binary digits of a numeral are the digits it is written with.\<close>

lemma bit_length_0: "bit_length 0 = 0"
  by (subst bit_length.simps) simp

lemma bit_length_Suc_0: "bit_length (Suc 0) = 1"
  by (subst bit_length.simps) (simp add: bit_length_0)

lemma bit_length_1: "bit_length 1 = 1"
  using bit_length_Suc_0 by simp

lemma bit_length_numeral: "bit_length (numeral k) = num_bits k"
proof (induction k)
  case One
  then show ?case by (simp add: bit_length_Suc_0)
next
  case (Bit0 k)
  have "bit_length (numeral (num.Bit0 k)) = bit_length (numeral (num.Bit0 k) div 2) + 1"
    by (subst bit_length.simps) simp
  then show ?case
    using Bit0 by simp
next
  case (Bit1 k)
  have "bit_length (numeral (num.Bit1 k)) = bit_length (numeral (num.Bit1 k) div 2) + 1"
    by (subst bit_length.simps) simp
  then show ?case
    using Bit1 by simp
qed

lemmas eval64 = round64_def finish64_def exponent64_def floor_log2_def pow2_def
  round_half_even_def bit_length_0 bit_length_1 bit_length_Suc_0 bit_length_numeral
  zero64_def inf64_def Let_def
  fadd64_def fsub64_def fmul64_def fdiv64_def fsq64_def of_count64_def of_pyint_def

lemma pairwise_sum_small: "length xs < 8 \<Longrightarrow> pairwise_sum xs = foldl fadd64 (Double 0) xs"
  by (subst pairwise_sum.simps) simp

text \<open>
  The values of cell 13 of the notebook: every intermediate result is a binary fraction,
  and nothing is rounded.
\<close>

lemma ssrd64_concrete_cases:
  "ssrd64 [1, 1, 0, 0] 2 [Double (1/4), Double (1/4), Double (1/4), Double (1/4)] =
   Inr (Double 2)"
  "ssrd64 [2, 0, 0, 0] 2 [Double (1/4), Double (1/4), Double (1/4), Double (1/4)] =
   Inr (Double 6)"
  by (simp_all add: ssrd64_def broadcast2_def np_sum64_def pairwise_sum_small eval64)

subsection \<open>Category by category\<close>

lemma ssrd64_by_index:
  assumes len: "length x = length p" and conv: "of_pyint n = Inr nf"
  shows "ssrd64 x n p = Inr (np_sum64 (terms64 x nf p))"
proof -
  let ?e = "map (\<lambda>p_i. fmul64 p_i nf) p"
  let ?d = "map (\<lambda>i. fsub64 (expected64 p nf i) (of_count64 (x ! i))) [0..<length p]"
  have d: "broadcast2 fsub64 ?e (map of_count64 x) = Inr ?d"
    using len by (simp add: broadcast2_same_length expected64_def)
  have q: "broadcast2 fdiv64 (map fsq64 ?d) ?e = Inr (terms64 x nf p)"
    by (simp add: broadcast2_same_length expected64_def term64_def terms64_def)
  show ?thesis
    unfolding ssrd64_def conv using d q by simp
qed

lemma terms64_permute:
  "terms64 (permute perm x) nf (permute perm p) = map (term64 x nf p) perm"
proof -
  have "map (term64 (permute perm x) nf (permute perm p)) [0..<length perm] =
        map (\<lambda>i. term64 x nf p (perm ! i)) [0..<length perm]"
    by (simp add: term64_def expected64_def permute_def)
  also have "\<dots> = map (term64 x nf p) (map ((!) perm) [0..<length perm])"
    by simp
  also have "\<dots> = map (term64 x nf p) perm"
    by (simp only: map_nth)
  finally show ?thesis
    by (simp add: terms64_def permute_def)
qed

lemma permute_terms64:
  assumes "\<forall>j\<in>set perm. j < length p"
  shows "permute perm (terms64 x nf p) = map (term64 x nf p) perm"
  using assms by (simp add: permute_def terms64_def)

lemma mset_permute:
  assumes "mset perm = mset [0..<length ts]"
  shows "mset (permute perm ts) = mset ts"
proof -
  have "mset (permute perm ts) = image_mset ((!) ts) (mset perm)"
    by (simp add: permute_def)
  also have "\<dots> = mset (map ((!) ts) [0..<length ts])"
    unfolding assms by simp
  also have "\<dots> = mset ts"
    by (simp only: map_nth)
  finally show ?thesis .
qed

subsection \<open>Sums of zeros, sums with an infinity or NaN\<close>


lemma length_accumulate8: "length r = 8 \<Longrightarrow> length (accumulate8 r xs) = 8"
proof (induction r xs rule: accumulate8.induct)
  case (1 r xs)
  show ?case
  proof (cases "length xs < 8")
    case True
    then show ?thesis using "1.prems" by (subst accumulate8.simps) simp
  next
    case False
    then have "length (map2 fadd64 r (take 8 xs)) = 8"
      using "1.prems" by simp
    then show ?thesis
      using "1.IH" False by (subst accumulate8.simps) simp
  qed
qed





lemma is_finite64_iff: "is_finite64 v \<longleftrightarrow> \<not> is_nan64 v \<and> \<not> is_inf64 v"
  by (cases v) simp_all

lemma fadd64_finite:
  assumes "is_finite64 (fadd64 a b)"
  shows "is_finite64 a \<and> is_finite64 b"
proof (rule ccontr)
  assume "\<not> (is_finite64 a \<and> is_finite64 b)"
  then consider "is_nan64 a \<or> is_nan64 b"
    | "\<not> (is_nan64 a \<or> is_nan64 b)" "is_inf64 a"
    | "\<not> (is_nan64 a \<or> is_nan64 b)" "\<not> is_inf64 a" "is_inf64 b"
    using is_finite64_iff by blast
  then have "\<not> is_finite64 (fadd64 a b)"
  proof cases
    case 1
    then show ?thesis by (simp add: fadd64_def)
  next
    case 2
    then show ?thesis by (simp add: fadd64_def is_finite64_iff)
  next
    case 3
    then show ?thesis by (simp add: fadd64_def is_finite64_iff)
  qed
  then show False
    using assms by simp
qed

lemma foldl_fadd64_finite:
  "is_finite64 (foldl fadd64 a xs) \<Longrightarrow> is_finite64 a \<and> (\<forall>v\<in>set xs. is_finite64 v)"
proof (induction xs arbitrary: a)
  case Nil
  then show ?case by simp
next
  case (Cons x xs)
  have "is_finite64 (foldl fadd64 (fadd64 a x) xs)"
    using Cons.prems by simp
  then have "is_finite64 (fadd64 a x) \<and> (\<forall>v\<in>set xs. is_finite64 v)"
    by (rule Cons.IH)
  then show ?case
    by (auto dest: fadd64_finite)
qed

lemma accumulate8_finite:
  "length r = 8 \<Longrightarrow> 8 dvd length xs \<Longrightarrow> \<forall>v\<in>set (accumulate8 r xs). is_finite64 v \<Longrightarrow>
   (\<forall>v\<in>set r. is_finite64 v) \<and> (\<forall>v\<in>set xs. is_finite64 v)"
proof (induction r xs rule: accumulate8.induct)
  case (1 r xs)
  show ?case
  proof (cases "length xs < 8")
    case True
    then have "length xs = 0"
      using "1.prems"(2) by presburger
    then have "xs = []"
      by simp
    then show ?thesis
      using "1.prems"(3) by (subst (asm) accumulate8.simps) simp
  next
    case False
    let ?r' = "map2 fadd64 r (take 8 xs)"
    have l: "length ?r' = 8"
      using False "1.prems"(1) by simp
    have d: "8 dvd length (drop 8 xs)"
      using False "1.prems"(2) by (simp add: dvd_diff_nat)
    have f: "\<forall>v\<in>set (accumulate8 ?r' (drop 8 xs)). is_finite64 v"
      using "1.prems"(3) False by (subst (asm) accumulate8.simps) simp
    have ih: "(\<forall>v\<in>set ?r'. is_finite64 v) \<and> (\<forall>v\<in>set (drop 8 xs). is_finite64 v)"
      using "1.IH"[OF False l d f] .
    have j: "\<forall>j<8. is_finite64 (r ! j) \<and> is_finite64 (take 8 xs ! j)"
    proof (intro allI impI)
      fix j :: nat
      assume j: "j < 8"
      then have "?r' ! j = fadd64 (r ! j) (take 8 xs ! j)"
        using False "1.prems"(1) by simp
      moreover have "?r' ! j \<in> set ?r'"
        using j l by (intro nth_mem) simp
      ultimately have "is_finite64 (fadd64 (r ! j) (take 8 xs ! j))"
        using ih by metis
      then show "is_finite64 (r ! j) \<and> is_finite64 (take 8 xs ! j)"
        by (rule fadd64_finite)
    qed
    have rr: "\<forall>v\<in>set r. is_finite64 v"
      using j "1.prems"(1) by (auto simp add: in_set_conv_nth)
    have tt: "\<forall>v\<in>set (take 8 xs). is_finite64 v"
    proof
      fix v assume "v \<in> set (take 8 xs)"
      then obtain i where "i < length (take 8 xs)" "take 8 xs ! i = v"
        by (auto simp add: in_set_conv_nth)
      moreover from this have "i < 8"
        by simp
      ultimately show "is_finite64 v"
        using j by blast
    qed
    have "set xs = set (take 8 xs) \<union> set (drop 8 xs)"
      by (metis append_take_drop_id set_append)
    then show ?thesis
      using rr tt ih by auto
  qed
qed

lemma sum8_finite:
  assumes "length r = 8" "is_finite64 (sum8 r)"
  shows "\<forall>v\<in>set r. is_finite64 v"
proof -
  have "\<forall>j<8. is_finite64 (r ! j)"
  proof -
    have "is_finite64 (r ! 0) \<and> is_finite64 (r ! 1) \<and> is_finite64 (r ! 2) \<and> is_finite64 (r ! 3)
        \<and> is_finite64 (r ! 4) \<and> is_finite64 (r ! 5) \<and> is_finite64 (r ! 6) \<and> is_finite64 (r ! 7)"
      using assms(2) unfolding sum8_def by (auto dest!: fadd64_finite)
    moreover have "\<And>j::nat. j < 8 \<Longrightarrow> j = 0 \<or> j = 1 \<or> j = 2 \<or> j = 3 \<or> j = 4 \<or> j = 5 \<or> j = 6 \<or> j = 7"
      by arith
    ultimately show ?thesis by blast
  qed
  then show ?thesis
    using assms(1) by (auto simp add: in_set_conv_nth)
qed

lemma pairwise_sum_finite:
  "is_finite64 (pairwise_sum xs) \<Longrightarrow> \<forall>v\<in>set xs. is_finite64 v"
proof (induction xs rule: pairwise_sum.induct)
  case (1 xs)
  show ?case
  proof (cases "length xs < 8")
    case True
    then have "is_finite64 (foldl fadd64 (Double 0) xs)"
      using "1.prems" by (subst (asm) pairwise_sum.simps) simp
    then show ?thesis
      using foldl_fadd64_finite by blast
  next
    case False
    show ?thesis
    proof (cases "length xs \<le> 128")
      case True
      let ?m = "length xs - length xs mod 8"
      let ?acc = "accumulate8 (take 8 xs) (drop 8 (take ?m xs))"
      have "is_finite64 (foldl fadd64 (sum8 ?acc) (drop ?m xs))"
        using "1.prems" False True by (subst (asm) pairwise_sum.simps) simp
      then have s: "is_finite64 (sum8 ?acc)" and t: "\<forall>v\<in>set (drop ?m xs). is_finite64 v"
        using foldl_fadd64_finite by blast+
      have l: "length (take 8 xs) = 8"
        using False by simp
      have m8: "8 \<le> ?m"
        using False by presburger
      have "8 dvd ?m"
        by (rule dvd_minus_mod)
      then have "8 dvd ?m - 8"
        by (rule dvd_diff_nat) simp
      moreover have "length (take ?m xs) = ?m"
        by simp
      then have "length (drop 8 (take ?m xs)) = ?m - 8"
        by (simp only: length_drop)
      ultimately have d: "8 dvd length (drop 8 (take ?m xs))"
        by (simp only:)
      have "\<forall>v\<in>set ?acc. is_finite64 v"
        using sum8_finite[OF length_accumulate8[OF l] s] .
      then have r: "\<forall>v\<in>set (take 8 xs). is_finite64 v"
        and b: "\<forall>v\<in>set (drop 8 (take ?m xs)). is_finite64 v"
        using accumulate8_finite[OF l d] by blast+
      have "take 8 (take ?m xs) = take 8 xs"
        using m8 by (simp add: min_def)
      then have "take ?m xs = take 8 xs @ drop 8 (take ?m xs)"
        by (metis append_take_drop_id)
      then have "xs = take 8 xs @ drop 8 (take ?m xs) @ drop ?m xs"
        by (metis append_take_drop_id append_assoc)
      then have "set xs = set (take 8 xs) \<union> set (drop 8 (take ?m xs)) \<union> set (drop ?m xs)"
        by (metis set_append Un_assoc)
      then show ?thesis
        using r b t by auto
    next
      case big: False
      let ?s = "split_point (length xs)"
      have "is_finite64 (fadd64 (pairwise_sum (take ?s xs)) (pairwise_sum (drop ?s xs)))"
        using "1.prems" False big by (subst (asm) pairwise_sum.simps) simp
      then have "is_finite64 (pairwise_sum (take ?s xs))" "is_finite64 (pairwise_sum (drop ?s xs))"
        using fadd64_finite by blast+
      then have "(\<forall>v\<in>set (take ?s xs). is_finite64 v) \<and> (\<forall>v\<in>set (drop ?s xs). is_finite64 v)"
        using "1.IH"(1)[OF False big] "1.IH"(2)[OF False big] by blast
      moreover have "set xs = set (take ?s xs) \<union> set (drop ?s xs)"
        by (metis append_take_drop_id set_append)
      ultimately show ?thesis by auto
    qed
  qed
qed

lemma np_sum64_finite:
  "is_finite64 (np_sum64 xs) \<Longrightarrow> \<forall>v\<in>set xs. is_finite64 v"
  unfolding np_sum64_def using fadd64_finite pairwise_sum_finite by blast

lemma fdiv64_by_zero: "is_zero64 e \<Longrightarrow> \<not> is_finite64 (fdiv64 s e)"
  by (cases s; cases e) (simp_all add: fdiv64_def inf64_def)


subsection \<open>Permuting the categories\<close>

text \<open>
  C4, as stated: permuting the categories of \<open>x\<close> and \<open>p_null\<close> alike leaves the
  statistic unchanged. In binary64 it does not: on \<open>x = [2,1,7]\<close>, \<open>n = 10\<close>,
  \<open>p_null = [0.1,0.3,0.6]\<close> (expected counts 1.0, 3.0 and 6.0, all positive) the terms
  are 1.0, 1.3333333333333333 and 0.16666666666666666 and the statistic is
  2.4999999999999996; with the last two categories exchanged the same terms add up to 2.5.
\<close>

theorem ssrd64_permutation_changes_value_counterexample:
  "ssrd64 [2, 1, 7] 10 [round64 (1/10), round64 (3/10), round64 (6/10)] =
     Inr (Double (5629499534213119 / 2251799813685248)) \<and>
   ssrd64 (permute [0, 2, 1] [2, 1, 7]) 10
     (permute [0, 2, 1] [round64 (1/10), round64 (3/10), round64 (6/10)]) =
     Inr (Double (5 / 2)) \<and>
   expected64 [round64 (1/10), round64 (3/10), round64 (6/10)] (Double 10) 0 = Double 1 \<and>
   expected64 [round64 (1/10), round64 (3/10), round64 (6/10)] (Double 10) 1 = Double 3 \<and>
   expected64 [round64 (1/10), round64 (3/10), round64 (6/10)] (Double 10) 2 = Double 6"
  by (simp add: permute_def ssrd64_def broadcast2_def np_sum64_def pairwise_sum_small
      expected64_def eval64)

text \<open>
  C4, amended. For a count vector \<open>x\<close> and a null vector \<open>p_null\<close> of the same length,
  a sample size \<open>n\<close> and a permutation of the category indices, permuting \<open>x\<close> and
  \<open>p_null\<close> alike permutes the per-category terms \<open>(expected_i - x_i)\<^sup>2 / expected_i\<close>:
  the statistic of the permuted input is the float sum of the same terms, taken in the
  permuted order.
\<close>

theorem ssrd64_permutation_permutes_terms:
  assumes len: "length x = length p"
    and perm: "mset perm = mset [0..<length p]"
    and conv: "of_pyint n = Inr nf"
  shows "ssrd64 x n p = Inr (np_sum64 (terms64 x nf p)) \<and>
         ssrd64 (permute perm x) n (permute perm p) =
           Inr (np_sum64 (permute perm (terms64 x nf p))) \<and>
         mset (permute perm (terms64 x nf p)) = mset (terms64 x nf p)"
proof (intro conjI)
  show "ssrd64 x n p = Inr (np_sum64 (terms64 x nf p))"
    using len conv by (rule ssrd64_by_index)
  have "set perm = {0..<length p}"
    using perm by (metis mset_eq_setD set_upt)
  then have range: "\<forall>j\<in>set perm. j < length p"
    by simp
  have "length (permute perm x) = length (permute perm p)"
    by (simp add: permute_def)
  then have "ssrd64 (permute perm x) n (permute perm p) =
        Inr (np_sum64 (terms64 (permute perm x) nf (permute perm p)))"
    using conv by (rule ssrd64_by_index)
  then show "ssrd64 (permute perm x) n (permute perm p) =
           Inr (np_sum64 (permute perm (terms64 x nf p)))"
    by (simp only: terms64_permute permute_terms64[OF range])
  show "mset (permute perm (terms64 x nf p)) = mset (terms64 x nf p)"
    using perm by (intro mset_permute) (simp add: terms64_def)
qed

theorem ssrd64_permutation_permutes_terms_witness:
  "ssrd64 (permute [0, 2, 1] [2, 1, 7]) 10
     (permute [0, 2, 1] [round64 (1/10), round64 (3/10), round64 (6/10)]) =
   Inr (np_sum64 [Double 1, Double (6004799503160661 / 36028797018963968),
                  Double (6004799503160661 / 4503599627370496)])"
proof -
  let ?p = "[round64 (1/10), round64 (3/10), round64 (6/10)]"
  have len: "length [2, 1, 7 :: 64 word] = length ?p"
    by simp
  have perm: "mset [0, 2, 1] = mset [0..<length ?p]"
    by (simp add: upt_rec)
  have conv: "of_pyint 10 = Inr (Double 10)"
    by (simp add: eval64)
  have "permute [0, 2, 1] (terms64 [2, 1, 7] (Double 10) ?p) =
        [Double 1, Double (6004799503160661 / 36028797018963968),
         Double (6004799503160661 / 4503599627370496)]"
    by (simp add: permute_def terms64_def term64_def expected64_def upt_rec eval64)
  then show ?thesis
    using ssrd64_permutation_permutes_terms [OF len perm conv] by simp
qed

subsection \<open>A statistic of zero\<close>




subsection \<open>Zero expected counts\<close>

text \<open>
  The two anomalies: a zero expected count under a zero count gives NaN (zero over zero),
  under a non-zero count an infinity. Positive expected counts do not make the result
  finite: a quotient can overflow.
\<close>

lemma ssrd64_zero_expected_examples:
  "ssrd64 [2, 0] 2 [Double 1, Double 0] = Inr NotANumber"
  "ssrd64 [1, 1] 2 [Double 1, Double 0] = Inr PosInf"
  by (simp_all add: ssrd64_def broadcast2_def np_sum64_def pairwise_sum_small eval64)

lemma ssrd64_overflow_example:
  "ssrd64 [1, 0] 1 [Double (1 / 2 ^ 1030), Double 1] = Inr PosInf"
  by (simp add: ssrd64_def broadcast2_def np_sum64_def pairwise_sum_small eval64)

text \<open>
  C7. The statistic validates nothing. On a count vector and a probability vector of the
  same length (and a sample size that converts to a float) the call returns a value. When
  some expected count \<open>p_i * n\<close> is zero the division is not guarded and the value is an
  infinity or NaN. When every expected count is positive, the value is the sum of the
  quotients by the expected counts and no divisor is zero.
\<close>

theorem ssrd64_division_by_zero_unguarded:
  assumes len: "length x = length p" and conv: "of_pyint n = Inr nf"
  shows "(\<exists>v. ssrd64 x n p = Inr v) \<and>
         ((\<exists>i<length p. is_zero64 (expected64 p nf i)) \<longrightarrow>
            (\<exists>v. ssrd64 x n p = Inr v \<and> \<not> is_finite64 v)) \<and>
         ((\<forall>i<length p. positive64 (expected64 p nf i)) \<longrightarrow>
            ssrd64 x n p =
              Inr (np_sum64 (map (\<lambda>i. fdiv64 (fsq64 (fsub64 (expected64 p nf i)
                                                     (of_count64 (x ! i))))
                                          (expected64 p nf i)) [0..<length p])) \<and>
            (\<forall>i<length p. \<not> is_zero64 (expected64 p nf i)))"
proof (intro conjI impI)
  have val: "ssrd64 x n p = Inr (np_sum64 (terms64 x nf p))"
    using len conv by (rule ssrd64_by_index)
  then show "\<exists>v. ssrd64 x n p = Inr v"
    by blast
  {
    assume "\<exists>i<length p. is_zero64 (expected64 p nf i)"
    then obtain i where i: "i < length p" "is_zero64 (expected64 p nf i)"
      by blast
    have "\<not> is_finite64 (term64 x nf p i)"
      unfolding term64_def using i(2) by (rule fdiv64_by_zero)
    moreover have "term64 x nf p i \<in> set (terms64 x nf p)"
      using i(1) by (simp add: terms64_def)
    ultimately have "\<not> is_finite64 (np_sum64 (terms64 x nf p))"
      using np_sum64_finite by blast
    then show "\<exists>v. ssrd64 x n p = Inr v \<and> \<not> is_finite64 v"
      using val by simp
  }
  {
    assume pos: "\<forall>i<length p. positive64 (expected64 p nf i)"
    show "ssrd64 x n p =
              Inr (np_sum64 (map (\<lambda>i. fdiv64 (fsq64 (fsub64 (expected64 p nf i)
                                                     (of_count64 (x ! i))))
                                          (expected64 p nf i)) [0..<length p]))"
    proof -
      have "term64 x nf p =
            (\<lambda>i. fdiv64 (fsq64 (fsub64 (expected64 p nf i) (of_count64 (x ! i))))
                        (expected64 p nf i))"
        by (rule ext) (simp add: term64_def)
      then show ?thesis
        using val by (simp add: terms64_def)
    qed
    show "\<forall>i<length p. \<not> is_zero64 (expected64 p nf i)"
    proof (intro allI impI)
      fix i
      assume "i < length p"
      then have "positive64 (expected64 p nf i)"
        using pos by blast
      then show "\<not> is_zero64 (expected64 p nf i)"
        by (cases "expected64 p nf i") simp_all
    qed
  }
qed

theorem ssrd64_division_by_zero_unguarded_witness:
  "(\<exists>v. ssrd64 [1, 0] 2 [Double (1/2), Double 0] = Inr v \<and> \<not> is_finite64 v) \<and>
   ssrd64 [1, 1] 2 [Double (1/2), Double (1/2)] =
     Inr (np_sum64 [fdiv64 (fsq64 (fsub64 (Double 1) (Double 1))) (Double 1),
                    fdiv64 (fsq64 (fsub64 (Double 1) (Double 1))) (Double 1)]) \<and>
   \<not> is_zero64 (expected64 [Double (1/2), Double (1/2)] (Double 2) 0) \<and>
   \<not> is_zero64 (expected64 [Double (1/2), Double (1/2)] (Double 2) 1)"
proof -
  have conv: "of_pyint 2 = Inr (Double 2)"
    by (simp add: eval64)
  have len0: "length [1, 0 :: 64 word] = length [Double (1/2), Double 0]"
    by simp
  have len1: "length [1, 1 :: 64 word] = length [Double (1/2), Double (1/2)]"
    by simp
  have e: "expected64 [Double (1/2), Double 0] (Double 2) 1 = Double 0"
     "expected64 [Double (1/2), Double (1/2)] (Double 2) 0 = Double 1"
     "expected64 [Double (1/2), Double (1/2)] (Double 2) 1 = Double 1"
    by (simp_all add: expected64_def eval64)
  have c: "of_count64 ([1, 1] ! 0) = Double 1" "of_count64 ([1, 1] ! 1) = Double 1"
    by (simp_all add: eval64)
  have zero: "\<exists>i<length [Double (1/2), Double 0].
                is_zero64 (expected64 [Double (1/2), Double 0] (Double 2) i)"
    using e(1) by (simp add: Ex_less_Suc2)
  have pos: "\<forall>i<length [Double (1/2), Double (1/2)].
                positive64 (expected64 [Double (1/2), Double (1/2)] (Double 2) i)"
    using e(2,3) by (simp add: All_less_Suc2)
  have a: "\<exists>v. ssrd64 [1, 0] 2 [Double (1/2), Double 0] = Inr v \<and> \<not> is_finite64 v"
    using ssrd64_division_by_zero_unguarded [OF len0 conv] zero by blast
  have b: "ssrd64 [1, 1] 2 [Double (1/2), Double (1/2)] =
     Inr (np_sum64 (map (\<lambda>i. fdiv64 (fsq64 (fsub64
            (expected64 [Double (1/2), Double (1/2)] (Double 2) i) (of_count64 ([1, 1] ! i))))
            (expected64 [Double (1/2), Double (1/2)] (Double 2) i))
          [0..<length [Double (1/2), Double (1/2)]])) \<and>
     (\<forall>i<length [Double (1/2), Double (1/2)].
        \<not> is_zero64 (expected64 [Double (1/2), Double (1/2)] (Double 2) i))"
    using ssrd64_division_by_zero_unguarded [OF len1 conv] pos by blast
  show ?thesis
    using a b e(2,3) c by (simp add: upt_rec All_less_Suc2)
qed

section \<open>Properties of the power estimator\<close>

subsection \<open>From the rows drawn to the rejection rate\<close>

lemma apply_rows_all_Inr:
  "\<forall>y\<in>set rows. f y = Inr (h y) \<Longrightarrow> apply_rows f rows = Inr (map h rows)"
  by (induction rows) simp_all

lemma sum_indicators:
  "sum_list (map (\<lambda>v. if P v then 1 else 0) vs) = real (length (filter P vs))"
  by (induction vs) simp_all

lemma mean_bool_fraction:
  "vs \<noteq> [] \<Longrightarrow> mean_bool (map P vs) = Fin (real (length (filter P vs)) / real (length vs))"
  by (simp add: mean_bool_def comp_def sum_indicators)

lemma power_from_rows:
  assumes draw: "rvs g n p nsim = (Inr x_sim, g')"
    and ne: "x_sim \<noteq> []"
    and rows: "\<forall>y\<in>set x_sim. length y = length q"
  shows "power rvs cdf g p n alpha (Some q) nsim =
         (Inr (PowerEstimator_spec cdf (length p) n alpha q x_sim (int (length x_sim))), g')"
proof -
  have "\<forall>y\<in>set x_sim. sum_of_relative_squared_differences y n q = Inr (TestStatistic_spec y n q)"
    using rows by (simp add: ssrd_by_index TestStatistic_spec_def)
  then have stats: "apply_along_axis (\<lambda>y. sum_of_relative_squared_differences y n q) x_sim =
        Inr (map (\<lambda>y. TestStatistic_spec y n q) x_sim)"
    using ne by (simp add: apply_along_axis_def apply_rows_all_Inr)
  have m: "mean_bool (map (\<lambda>v. flt v alpha)
             (map (\<lambda>s. fsub (Fin 1) (cdf s (int (length p) - 1)))
                (map (\<lambda>y. TestStatistic_spec y n q) x_sim))) =
           PowerEstimator_spec cdf (length p) n alpha q x_sim (int (length x_sim))"
    using ne by (simp add: mean_bool_fraction PowerEstimator_spec_def del: map_map)
  show ?thesis
    unfolding power_def Let_def draw using stats m by simp
qed

text \<open>With no trial, \<^verbatim>\<open>np.apply_along_axis\<close> raises.\<close>

lemma power_no_trials:
  "power tape_rvs cdf [] p n alpha p_null 0 = (Inl EmptyIterationError, [])"
  by (simp add: power_def tape_rvs_def apply_along_axis_def)

text \<open>
  C2. For a probability vector \<open>p\<close> of length \<open>k\<close>, a sample size \<open>n\<close>, a level
  \<open>alpha\<close>, a null vector \<open>p_null\<close> of length \<open>k\<close> and a trial count \<open>nsim\<close>, the
  estimator draws \<open>nsim\<close> count vectors with one call of the multinomial sampler on
  \<open>n\<close> and \<open>p\<close>, computes the statistic of each against \<open>p_null\<close>, turns each into
  the p-value \<open>1 - ChiSquaredCDF(statistic, df = k - 1)\<close> and returns the fraction of
  the \<open>nsim\<close> p-values strictly below \<open>alpha\<close>. (The sampler returns \<open>nsim\<close> rows
  of \<open>k\<close> counts; \<open>nsim\<close> is positive.)
\<close>

theorem power_is_rejection_rate:
  assumes draw: "rvs g n p nsim = (Inr x_sim, g')"
    and nsim: "0 < nsim" "length x_sim = nat nsim"
    and rows: "\<forall>y\<in>set x_sim. length y = length p"
    and null: "length p_null = length p"
  shows "power rvs cdf g p n alpha (Some p_null) nsim =
         (Inr (PowerEstimator_spec cdf (length p) n alpha p_null x_sim nsim), g')"
proof -
  have ne: "x_sim \<noteq> []"
    using nsim by auto
  have "int (length x_sim) = nsim"
    using nsim by simp
  then show ?thesis
    using power_from_rows[of rvs g n p nsim x_sim g' p_null cdf alpha] draw ne rows null
    by simp
qed

theorem power_is_rejection_rate_witness:
  "power tape_rvs (step_cdf (7815/1000)) [[10, 0, 0, 0], [3, 2, 3, 2]]
     [Fin (27/100), Fin (23/100), Fin (1/4), Fin (1/4)] 10 (Fin (1/20))
     (Some [Fin (1/4), Fin (1/4), Fin (1/4), Fin (1/4)]) 2 = (Inr (Fin (1/2)), [])"
proof -
  let ?p = "[Fin (27/100), Fin (23/100), Fin (1/4), Fin (1/4)]"
  let ?q = "[Fin (1/4), Fin (1/4), Fin (1/4), Fin (1/4)]"
  let ?rows = "[[10, 0, 0, 0], [3, 2, 3, 2 :: int]]"
  have draw: "tape_rvs ?rows 10 ?p 2 = (Inr ?rows, [])"
    by (simp add: tape_rvs_def)
  have nsim: "(0::int) < 2" "length ?rows = nat 2"
    by simp_all
  have rows: "\<forall>y\<in>set ?rows. length y = length ?p"
    by simp
  have null: "length ?q = length ?p"
    by simp
  have "PowerEstimator_spec (step_cdf (7815/1000)) (length ?p) 10 (Fin (1/20)) ?q ?rows 2 =
        Fin (1/2)"
    by (simp add: PowerEstimator_spec_def TestStatistic_spec_def
        relative_squared_difference_def expected_def step_cdf_def np_sum_def of_count_def
        fsub_def fsq_def upt_rec)
  then show ?thesis
    using power_is_rejection_rate [where rvs = tape_rvs and g = ?rows and n = 10 and p = ?p
        and nsim = 2 and x_sim = ?rows and g' = "[]" and p_null = ?q
        and cdf = "step_cdf (7815/1000)" and alpha = "Fin (1/20)"] draw nsim rows null
    by simp
qed

subsection \<open>The default null vector\<close>

lemma uniform_null:
  "map (\<lambda>one. fdiv one (Fin (real (length p)))) (ones_like p) =
   replicate (length p) (Fin (1 / real (length p)))"
  by (cases "p = []") (simp_all add: ones_like_def map_replicate_const)

text \<open>
  C3. When \<open>p_null\<close> is absent (\<open>None\<close>), the estimator uses the uniform distribution
  over the \<open>k = len(p)\<close> categories, each entry \<open>1/k\<close>, as the null vector: the
  statistic of every row drawn is taken against it, and the call returns what the call
  with that vector supplied returns.
\<close>

theorem power_none_uses_uniform_null:
  assumes draw: "rvs g n p nsim = (Inr x_sim, g')"
    and nsim: "0 < nsim" "length x_sim = nat nsim"
    and rows: "\<forall>y\<in>set x_sim. length y = length p"
  shows "power rvs cdf g p n alpha None nsim =
           (Inr (PowerEstimator_spec cdf (length p) n alpha
                   (replicate (length p) (Fin (1 / real (length p)))) x_sim nsim), g') \<and>
         power rvs cdf g p n alpha None nsim =
           power rvs cdf g p n alpha
             (Some (replicate (length p) (Fin (1 / real (length p))))) nsim"
proof -
  let ?u = "replicate (length p) (Fin (1 / real (length p)))"
  have eq: "power rvs cdf g p n alpha None nsim = power rvs cdf g p n alpha (Some ?u) nsim"
    by (simp add: power_def Let_def uniform_null split: prod.splits sum.splits)
  have ne: "x_sim \<noteq> []"
    using nsim by auto
  have "int (length x_sim) = nsim"
    using nsim by simp
  then have "power rvs cdf g p n alpha (Some ?u) nsim =
        (Inr (PowerEstimator_spec cdf (length p) n alpha ?u x_sim nsim), g')"
    using power_from_rows[of rvs g n p nsim x_sim g' ?u cdf alpha] draw ne rows by simp
  then show ?thesis
    using eq by simp
qed

theorem power_none_uses_uniform_null_witness:
  "power tape_rvs (step_cdf (7815/1000)) [[10, 0, 0, 0], [3, 2, 3, 2]]
     [Fin (27/100), Fin (23/100), Fin (1/4), Fin (1/4)] 10 (Fin (1/20)) None 2 =
   (Inr (Fin (1/2)), [])"
proof -
  let ?p = "[Fin (27/100), Fin (23/100), Fin (1/4), Fin (1/4)]"
  let ?rows = "[[10, 0, 0, 0], [3, 2, 3, 2 :: int]]"
  have draw: "tape_rvs ?rows 10 ?p 2 = (Inr ?rows, [])"
    by (simp add: tape_rvs_def)
  have nsim: "(0::int) < 2" "length ?rows = nat 2"
    by simp_all
  have rows: "\<forall>y\<in>set ?rows. length y = length ?p"
    by simp
  have "PowerEstimator_spec (step_cdf (7815/1000)) (length ?p) 10 (Fin (1/20))
          (replicate (length ?p) (Fin (1 / real (length ?p)))) ?rows 2 = Fin (1/2)"
    by (simp add: PowerEstimator_spec_def TestStatistic_spec_def
        relative_squared_difference_def expected_def step_cdf_def np_sum_def of_count_def
        fsub_def fsq_def upt_rec numeral_eq_Suc)
  then show ?thesis
    using power_none_uses_uniform_null [where rvs = tape_rvs and g = ?rows and n = 10
        and p = ?p and nsim = 2 and x_sim = ?rows and g' = "[]"
        and cdf = "step_cdf (7815/1000)" and alpha = "Fin (1/20)"] draw nsim rows
    by simp
qed

subsection \<open>The degrees of freedom\<close>

lemma apply_rows_nth:
  "length stats = length rows \<Longrightarrow> \<forall>j<length rows. f (rows ! j) = Inr (stats ! j) \<Longrightarrow>
   apply_rows f rows = Inr stats"
proof (induction rows arbitrary: stats)
  case Nil
  then show ?case by simp
next
  case (Cons r rows)
  then obtain s ss where s: "stats = s # ss"
    by (cases stats) auto
  have h: "f r = Inr s"
    using Cons.prems(2) s by force
  have "\<forall>j<length rows. f (rows ! j) = Inr (ss ! j)"
    using Cons.prems(2) s by force
  then have "apply_rows f rows = Inr ss"
    using Cons.prems(1) s by (intro Cons.IH) simp_all
  then show ?case
    using h s by simp
qed

lemma power_from_statistics:
  assumes draw: "rvs g n p nsim = (Inr x_sim, g')"
    and ne: "x_sim \<noteq> []"
    and len: "length stats = length x_sim"
    and stats: "\<forall>j<length x_sim.
                  sum_of_relative_squared_differences (x_sim ! j) n p_null = Inr (stats ! j)"
  shows "power rvs cdf g p n alpha (Some p_null) nsim =
         (Inr (Fin (real (length (filter
                   (\<lambda>s. flt (fsub (Fin 1) (cdf s (int (length p) - 1))) alpha) stats)) /
                 real (length x_sim))), g')"
proof -
  have a: "apply_along_axis (\<lambda>y. sum_of_relative_squared_differences y n p_null) x_sim =
           Inr stats"
    using ne apply_rows_nth[OF len stats] by (simp add: apply_along_axis_def)
  have ne': "stats \<noteq> []"
    using ne len by auto
  have m: "mean_bool (map (\<lambda>v. flt v alpha)
             (map (\<lambda>s. fsub (Fin 1) (cdf s (int (length p) - 1))) stats)) =
           Fin (real (length (filter
                   (\<lambda>s. flt (fsub (Fin 1) (cdf s (int (length p) - 1))) alpha) stats)) /
                 real (length x_sim))"
    using mean_bool_fraction[OF ne', of "\<lambda>s. flt (fsub (Fin 1) (cdf s (int (length p) - 1))) alpha"]
      len by (simp add: comp_def)
  show ?thesis
    unfolding power_def Let_def draw using a m by simp
qed

text \<open>
  C10. Whatever null vector is supplied and whatever its length, the estimator turns each
  statistic \<open>s\<close> into the p-value \<open>1 - cdf(s, df)\<close> with \<open>df = len(p) - 1\<close>, taken
  from the length of \<open>p\<close>: when the rows drawn have the statistics \<open>stats\<close> against
  the null vector, the result is the fraction of the \<open>s\<close> in \<open>stats\<close> with
  \<open>1 - cdf(s, len(p) - 1) < alpha\<close>, and a distribution function that agrees with
  \<open>cdf\<close> at \<open>len(p) - 1\<close> degrees of freedom gives the same result.
\<close>

theorem power_df_is_length_of_p_minus_one:
  assumes draw: "rvs g n p nsim = (Inr x_sim, g')"
    and ne: "x_sim \<noteq> []"
    and len: "length stats = length x_sim"
    and stats: "\<forall>j<length x_sim.
                  sum_of_relative_squared_differences (x_sim ! j) n p_null = Inr (stats ! j)"
  shows "power rvs cdf g p n alpha (Some p_null) nsim =
           (Inr (Fin (real (length (filter
                     (\<lambda>s. flt (fsub (Fin 1) (cdf s (int (length p) - 1))) alpha) stats)) /
                   real (length x_sim))), g') \<and>
         ((\<forall>s. cdf s (int (length p) - 1) = cdf' s (int (length p) - 1)) \<longrightarrow>
            power rvs cdf g p n alpha (Some p_null) nsim =
            power rvs cdf' g p n alpha (Some p_null) nsim)"
proof (intro conjI impI)
  show "power rvs cdf g p n alpha (Some p_null) nsim =
           (Inr (Fin (real (length (filter
                     (\<lambda>s. flt (fsub (Fin 1) (cdf s (int (length p) - 1))) alpha) stats)) /
                   real (length x_sim))), g')"
    using draw ne len stats by (rule power_from_statistics)
  assume "\<forall>s. cdf s (int (length p) - 1) = cdf' s (int (length p) - 1)"
  then show "power rvs cdf g p n alpha (Some p_null) nsim =
            power rvs cdf' g p n alpha (Some p_null) nsim"
    by (simp add: power_def Let_def split: prod.splits sum.splits)
qed

text \<open>
  Here \<open>p\<close> has four categories and the null vector one (it broadcasts). The statistics of
  the two rows are 30 and 22.6; the distribution function rejects from 25 on at 3 degrees
  of freedom and everything at any other number, so that the result 0.5 tells the 3.
\<close>

theorem power_df_is_length_of_p_minus_one_witness:
  "power tape_rvs (\<lambda>s df. if df = 3 then step_cdf 25 s df else Fin 1)
     [[10, 0, 0, 0], [3, 2, 3, 2]]
     [Fin (27/100), Fin (23/100), Fin (1/4), Fin (1/4)] 10 (Fin (1/20)) (Some [Fin 1]) 2 =
   (Inr (Fin (1/2)), [])"
proof -
  let ?p = "[Fin (27/100), Fin (23/100), Fin (1/4), Fin (1/4)]"
  let ?rows = "[[10, 0, 0, 0], [3, 2, 3, 2 :: int]]"
  let ?stats = "[Fin 30, Fin (113/5)]"
  have draw: "tape_rvs ?rows 10 ?p 2 = (Inr ?rows, [])"
    by (simp add: tape_rvs_def)
  have ne: "?rows \<noteq> []"
    by simp
  have len: "length ?stats = length ?rows"
    by simp
  have stats: "\<forall>j<length ?rows.
      sum_of_relative_squared_differences (?rows ! j) 10 [Fin 1] = Inr (?stats ! j)"
    by (simp add: All_less_Suc2 sum_of_relative_squared_differences_def broadcast2_def
        np_sum_def of_count_def fsub_def fsq_def)
  show ?thesis
    using power_df_is_length_of_p_minus_one [where rvs = tape_rvs and g = ?rows and n = 10
        and p = ?p and nsim = 2 and x_sim = ?rows and g' = "[]" and stats = ?stats
        and p_null = "[Fin 1]" and alpha = "Fin (1/20)"
        and cdf = "\<lambda>s df. if df = 3 then step_cdf 25 s df else Fin 1"] draw ne len stats
    by (simp add: step_cdf_def fsub_def)
qed

subsection \<open>The random generator\<close>

text \<open>
  C8, as stated: every call of the statistic and of the estimator is pure, two calls with
  the same arguments return the same result and change no state outside the call. The
  estimator does not: it draws from the random generator. Called twice with the same
  arguments (\<open>p = [0.27,0.23,0.25,0.25]\<close>, \<open>n = 10\<close>, \<open>alpha = 0.05\<close>, no null
  vector, \<open>nsim = 1\<close>) on a generator that draws \<open>[10,0,0,0]\<close> and then
  \<open>[3,2,3,2]\<close>, it returns 1.0 and then 0.0, and each call leaves the generator in
  another state. (The statistics are 30 and 0.4; the chi-squared p-values with 3 degrees
  of freedom are about 0.0000014 and 0.94.)
\<close>

theorem power_not_pure_counterexample:
  "power tape_rvs (step_cdf (7815/1000)) [[10, 0, 0, 0], [3, 2, 3, 2]]
     [Fin (27/100), Fin (23/100), Fin (1/4), Fin (1/4)] 10 (Fin (1/20)) None 1 =
     (Inr (Fin 1), [[3, 2, 3, 2]]) \<and>
   power tape_rvs (step_cdf (7815/1000)) [[3, 2, 3, 2]]
     [Fin (27/100), Fin (23/100), Fin (1/4), Fin (1/4)] 10 (Fin (1/20)) None 1 =
     (Inr (Fin 0), [])"
  by (simp add: power_def tape_rvs_def step_cdf_def ones_like_def apply_along_axis_def
      sum_of_relative_squared_differences_def broadcast2_def np_sum_def of_count_def fsub_def
      fsq_def mean_bool_def)

text \<open>
  C8, amended. The statistic is a function of its three arguments: on equal lengths, the
  sum of the relative squared differences. The estimator is not a function of its
  arguments: it draws from the random generator, once. Its result is the rejection rate of
  the rows that draw returns, the state it leaves is the state the draw leaves, and two
  calls with the same arguments whose draws return the same return the same.
\<close>

theorem power_is_function_of_the_draw:
  assumes "rvs1 g1 n p nsim = (drawn, h1)" "rvs2 g2 n p nsim = (drawn, h2)"
  shows "(length x = length q \<longrightarrow>
            sum_of_relative_squared_differences x n q = Inr (TestStatistic_spec x n q)) \<and>
         (\<forall>x_sim. drawn = Inr x_sim \<and> 0 < nsim \<and> length x_sim = nat nsim \<and>
              (\<forall>y\<in>set x_sim. length y = length p) \<and> length q = length p \<longrightarrow>
            power rvs1 cdf g1 p n alpha (Some q) nsim =
              (Inr (PowerEstimator_spec cdf (length p) n alpha q x_sim nsim), h1)) \<and>
         fst (power rvs1 cdf g1 p n alpha p_null nsim) =
           fst (power rvs2 cdf g2 p n alpha p_null nsim) \<and>
         snd (power rvs1 cdf g1 p n alpha p_null nsim) = h1"
proof (intro conjI impI allI)
  assume "length x = length q"
  then show "sum_of_relative_squared_differences x n q = Inr (TestStatistic_spec x n q)"
    by (simp add: ssrd_by_index TestStatistic_spec_def)
next
  fix x_sim
  assume h: "drawn = Inr x_sim \<and> 0 < nsim \<and> length x_sim = nat nsim \<and>
              (\<forall>y\<in>set x_sim. length y = length p) \<and> length q = length p"
  then have ne: "x_sim \<noteq> []" and l: "int (length x_sim) = nsim"
    by auto
  show "power rvs1 cdf g1 p n alpha (Some q) nsim =
              (Inr (PowerEstimator_spec cdf (length p) n alpha q x_sim nsim), h1)"
    using power_from_rows[of rvs1 g1 n p nsim x_sim h1 q cdf alpha] assms(1) h ne l by simp
next
  show "fst (power rvs1 cdf g1 p n alpha p_null nsim) =
           fst (power rvs2 cdf g2 p n alpha p_null nsim)"
    using assms by (simp add: power_def Let_def split: sum.splits)
next
  show "snd (power rvs1 cdf g1 p n alpha p_null nsim) = h1"
    using assms by (simp add: power_def Let_def split: sum.splits)
qed

theorem power_is_function_of_the_draw_witness:
  "sum_of_relative_squared_differences [3, 2, 3, 2] 10
     [Fin (1/4), Fin (1/4), Fin (1/4), Fin (1/4)] = Inr (Fin (2/5)) \<and>
   power tape_rvs (step_cdf (7815/1000)) [[10, 0, 0, 0], [3, 2, 3, 2]]
     [Fin (27/100), Fin (23/100), Fin (1/4), Fin (1/4)] 10 (Fin (1/20))
     (Some [Fin (1/4), Fin (1/4), Fin (1/4), Fin (1/4)]) 1 = (Inr (Fin 1), [[3, 2, 3, 2]]) \<and>
   fst (power tape_rvs (step_cdf (7815/1000)) [[10, 0, 0, 0], [3, 2, 3, 2]]
          [Fin (27/100), Fin (23/100), Fin (1/4), Fin (1/4)] 10 (Fin (1/20)) None 1) =
   fst (power tape_rvs (step_cdf (7815/1000)) [[10, 0, 0, 0]]
          [Fin (27/100), Fin (23/100), Fin (1/4), Fin (1/4)] 10 (Fin (1/20)) None 1) \<and>
   snd (power tape_rvs (step_cdf (7815/1000)) [[10, 0, 0, 0], [3, 2, 3, 2]]
          [Fin (27/100), Fin (23/100), Fin (1/4), Fin (1/4)] 10 (Fin (1/20)) None 1) =
   [[3, 2, 3, 2]]"
proof -
  let ?p = "[Fin (27/100), Fin (23/100), Fin (1/4), Fin (1/4)]"
  let ?q = "[Fin (1/4), Fin (1/4), Fin (1/4), Fin (1/4)]"
  let ?c = "step_cdf (7815/1000)"
  have d1: "tape_rvs [[10, 0, 0, 0], [3, 2, 3, 2]] 10 ?p 1 = (Inr [[10, 0, 0, 0]], [[3, 2, 3, 2]])"
    by (simp add: tape_rvs_def)
  have d2: "tape_rvs [[10, 0, 0, 0]] 10 ?p 1 = (Inr [[10, 0, 0, 0]], [])"
    by (simp add: tape_rvs_def)
  note t = power_is_function_of_the_draw [where ?rvs1.0 = tape_rvs and ?rvs2.0 = tape_rvs
        and ?g1.0 = "[[10, 0, 0, 0], [3, 2, 3, 2]]" and ?g2.0 = "[[10, 0, 0, 0]]"
        and n = 10 and p = ?p and nsim = 1 and drawn = "Inr [[10, 0, 0, 0]]"
        and ?h1.0 = "[[3, 2, 3, 2]]" and ?h2.0 = "[]" and x = "[3, 2, 3, 2]" and q = ?q
        and cdf = ?c and alpha = "Fin (1/20)" and p_null = None]
  have s: "TestStatistic_spec [3, 2, 3, 2] 10 ?q = Fin (2/5)"
    by (simp add: TestStatistic_spec_def relative_squared_difference_def expected_def
        np_sum_def of_count_def fsub_def fsq_def upt_rec)
  have e: "PowerEstimator_spec ?c (length ?p) 10 (Fin (1/20)) ?q [[10, 0, 0, 0]] 1 = Fin 1"
    by (simp add: PowerEstimator_spec_def TestStatistic_spec_def
        relative_squared_difference_def expected_def step_cdf_def np_sum_def of_count_def
        fsub_def fsq_def upt_rec)
  have a: "sum_of_relative_squared_differences [3, 2, 3, 2] 10 ?q = Inr (Fin (2/5))"
    using t d1 d2 s by simp
  have "Inr [[10, 0, 0, 0]] = (Inr [[10, 0, 0, 0]] :: error + int list list) \<and> (0::int) < 1 \<and>
        length [[10, 0, 0, 0 :: int]] = nat 1 \<and>
        (\<forall>y\<in>set [[10, 0, 0, 0 :: int]]. length y = length ?p) \<and> length ?q = length ?p"
    by simp
  then have b: "power tape_rvs ?c [[10, 0, 0, 0], [3, 2, 3, 2]] ?p 10 (Fin (1/20)) (Some ?q) 1 =
        (Inr (Fin 1), [[3, 2, 3, 2]])"
    using t d1 d2 e by metis
  show ?thesis
    using a b t d1 d2 by blast
qed

subsection \<open>The sample size\<close>

lemma count_rejections_mono:
  "length xs = length ys \<Longrightarrow> \<forall>j<length xs. P (xs ! j) \<longrightarrow> Q (ys ! j) \<Longrightarrow>
   length (filter P xs) \<le> length (filter Q ys)"
proof (induction xs ys rule: list_induct2)
  case Nil
  then show ?case by simp
next
  case (Cons x xs y ys)
  have h: "P x \<longrightarrow> Q y"
    using Cons.prems by force
  have "\<forall>j<length xs. P (xs ! j) \<longrightarrow> Q (ys ! j)"
    using Cons.prems by force
  then have "length (filter P xs) \<le> length (filter Q ys)"
    by (rule Cons.IH)
  then show ?case
    using h by auto
qed

lemma PowerEstimator_spec_count:
  "PowerEstimator_spec cdf k n alpha q x_sim nsim =
   Fin (real (length (filter (rejects cdf k n alpha q) x_sim)) / real_of_int nsim)"
proof -
  have r: "rejects cdf k n alpha q =
      (\<lambda>x. flt (fsub (Fin 1) (cdf (TestStatistic_spec x n q) (int k - 1))) alpha)"
    by (rule ext) (simp add: rejects_def)
  have "filter (\<lambda>pvalue. flt pvalue alpha)
          (map (\<lambda>statistic. fsub (Fin 1) (cdf statistic (int k - 1)))
             (map (\<lambda>x. TestStatistic_spec x n q) x_sim)) =
        map (\<lambda>x. fsub (Fin 1) (cdf (TestStatistic_spec x n q) (int k - 1)))
          (filter (rejects cdf k n alpha q) x_sim)"
    by (simp add: filter_map comp_def r)
  then have "length (filter (\<lambda>pvalue. flt pvalue alpha)
          (map (\<lambda>statistic. fsub (Fin 1) (cdf statistic (int k - 1)))
             (map (\<lambda>x. TestStatistic_spec x n q) x_sim))) =
        length (filter (rejects cdf k n alpha q) x_sim)"
    by (simp only: length_map)
  then show ?thesis
    by (simp add: PowerEstimator_spec_def Let_def del: map_map)
qed

text \<open>
  C9, as stated: for \<open>p\<close> away from the null, the value the estimator returns is
  non-decreasing in the sample size \<open>n\<close>, and \<open>n = 10\<close> gives a lower value than
  \<open>n = 1000\<close> for \<open>p = [0.27,0.23,0.25,0.25]\<close> against the uniform null. The value
  returned depends on the rows drawn: with one trial, the draw \<open>[10,0,0,0]\<close> at
  \<open>n = 10\<close> (statistic 30) is rejected and the estimator returns 1.0, the draw
  \<open>[250,250,250,250]\<close> at \<open>n = 1000\<close> (statistic 0) is not and it returns 0.0.
\<close>

theorem power_not_monotone_counterexample:
  "power tape_rvs (step_cdf (7815/1000)) [[10, 0, 0, 0]]
     [Fin (27/100), Fin (23/100), Fin (1/4), Fin (1/4)] 10 (Fin (1/20)) None 1 =
     (Inr (Fin 1), []) \<and>
   power tape_rvs (step_cdf (7815/1000)) [[250, 250, 250, 250]]
     [Fin (27/100), Fin (23/100), Fin (1/4), Fin (1/4)] 1000 (Fin (1/20)) None 1 =
     (Inr (Fin 0), [])"
  by (simp add: power_def tape_rvs_def step_cdf_def ones_like_def apply_along_axis_def
      sum_of_relative_squared_differences_def broadcast2_def np_sum_def of_count_def fsub_def
      fsq_def mean_bool_def)

text \<open>
  C9, amended. For fixed \<open>p\<close>, \<open>p_null\<close>, \<open>alpha\<close> and \<open>nsim\<close>, the value the
  estimator returns is the fraction of the simulated trials that are rejected, and it is
  non-decreasing from a sample size \<open>n1\<close> to a sample size \<open>n2\<close> whenever every trial
  that is rejected among the rows drawn at \<open>n1\<close> is rejected among the rows drawn at
  \<open>n2\<close>.
\<close>

theorem power_monotone_in_rejections:
  assumes d1: "rvs g1 n1 p nsim = (Inr xs1, h1)"
    and d2: "rvs g2 n2 p nsim = (Inr xs2, h2)"
    and nsim: "0 < nsim" "length xs1 = nat nsim" "length xs2 = nat nsim"
    and rows: "\<forall>y\<in>set xs1. length y = length p" "\<forall>y\<in>set xs2. length y = length p"
    and null: "length q = length p"
    and rej: "\<forall>j<nat nsim. rejects cdf (length p) n1 alpha q (xs1 ! j) \<longrightarrow>
                           rejects cdf (length p) n2 alpha q (xs2 ! j)"
  shows "\<exists>v1 v2.
           power rvs cdf g1 p n1 alpha (Some q) nsim = (Inr (Fin v1), h1) \<and>
           power rvs cdf g2 p n2 alpha (Some q) nsim = (Inr (Fin v2), h2) \<and>
           v1 = real (length (filter (rejects cdf (length p) n1 alpha q) xs1)) / real_of_int nsim \<and>
           v2 = real (length (filter (rejects cdf (length p) n2 alpha q) xs2)) / real_of_int nsim \<and>
           v1 \<le> v2"
proof -
  have ne: "xs1 \<noteq> []" "xs2 \<noteq> []"
    using nsim by auto
  have l: "int (length xs1) = nsim" "int (length xs2) = nsim"
    using nsim by simp_all
  have p1: "power rvs cdf g1 p n1 alpha (Some q) nsim =
        (Inr (PowerEstimator_spec cdf (length p) n1 alpha q xs1 nsim), h1)"
    using power_from_rows[of rvs g1 n1 p nsim xs1 h1 q cdf alpha] d1 ne(1) rows(1) null l(1)
    by simp
  have p2: "power rvs cdf g2 p n2 alpha (Some q) nsim =
        (Inr (PowerEstimator_spec cdf (length p) n2 alpha q xs2 nsim), h2)"
    using power_from_rows[of rvs g2 n2 p nsim xs2 h2 q cdf alpha] d2 ne(2) rows(2) null l(2)
    by simp
  have "length (filter (rejects cdf (length p) n1 alpha q) xs1) \<le>
        length (filter (rejects cdf (length p) n2 alpha q) xs2)"
    using rej nsim by (intro count_rejections_mono) simp_all
  then have "real (length (filter (rejects cdf (length p) n1 alpha q) xs1)) / real_of_int nsim \<le>
        real (length (filter (rejects cdf (length p) n2 alpha q) xs2)) / real_of_int nsim"
    using nsim(1) by (simp add: divide_right_mono)
  then show ?thesis
    using p1 p2 by (simp add: PowerEstimator_spec_count)
qed

theorem power_monotone_in_rejections_witness:
  "power tape_rvs (step_cdf (7815/1000)) [[3, 2, 3, 2]]
     [Fin (27/100), Fin (23/100), Fin (1/4), Fin (1/4)] 10 (Fin (1/20))
     (Some [Fin (1/4), Fin (1/4), Fin (1/4), Fin (1/4)]) 1 = (Inr (Fin 0), []) \<and>
   power tape_rvs (step_cdf (7815/1000)) [[300, 200, 250, 250]]
     [Fin (27/100), Fin (23/100), Fin (1/4), Fin (1/4)] 1000 (Fin (1/20))
     (Some [Fin (1/4), Fin (1/4), Fin (1/4), Fin (1/4)]) 1 = (Inr (Fin 1), [])"
proof -
  let ?p = "[Fin (27/100), Fin (23/100), Fin (1/4), Fin (1/4)]"
  let ?q = "[Fin (1/4), Fin (1/4), Fin (1/4), Fin (1/4)]"
  let ?c = "step_cdf (7815/1000)"
  have d1: "tape_rvs [[3, 2, 3, 2]] 10 ?p 1 = (Inr [[3, 2, 3, 2]], [])"
    by (simp add: tape_rvs_def)
  have d2: "tape_rvs [[300, 200, 250, 250]] 1000 ?p 1 = (Inr [[300, 200, 250, 250]], [])"
    by (simp add: tape_rvs_def)
  have r1: "\<not> rejects ?c (length ?p) 10 (Fin (1/20)) ?q [3, 2, 3, 2]"
    by (simp add: rejects_def TestStatistic_spec_def relative_squared_difference_def
        expected_def step_cdf_def np_sum_def of_count_def fsub_def fsq_def upt_rec)
  have r2: "rejects ?c (length ?p) 1000 (Fin (1/20)) ?q [300, 200, 250, 250]"
    by (simp add: rejects_def TestStatistic_spec_def relative_squared_difference_def
        expected_def step_cdf_def np_sum_def of_count_def fsub_def fsq_def upt_rec)
  have rej: "\<forall>j<nat 1. rejects ?c (length ?p) 10 (Fin (1/20)) ?q ([[3, 2, 3, 2]] ! j) \<longrightarrow>
                       rejects ?c (length ?p) 1000 (Fin (1/20)) ?q ([[300, 200, 250, 250]] ! j)"
    using r2 by simp
  have "\<exists>v1 v2.
      power tape_rvs ?c [[3, 2, 3, 2]] ?p 10 (Fin (1/20)) (Some ?q) 1 = (Inr (Fin v1), []) \<and>
      power tape_rvs ?c [[300, 200, 250, 250]] ?p 1000 (Fin (1/20)) (Some ?q) 1 = (Inr (Fin v2), []) \<and>
      v1 = real (length (filter (rejects ?c (length ?p) 10 (Fin (1/20)) ?q) [[3, 2, 3, 2]])) /
             real_of_int 1 \<and>
      v2 = real (length (filter (rejects ?c (length ?p) 1000 (Fin (1/20)) ?q)
                  [[300, 200, 250, 250]])) / real_of_int 1 \<and>
      v1 \<le> v2"
    using power_monotone_in_rejections [where rvs = tape_rvs and ?g1.0 = "[[3, 2, 3, 2]]"
        and ?g2.0 = "[[300, 200, 250, 250]]" and ?n1.0 = 10 and ?n2.0 = 1000 and p = ?p
        and nsim = 1 and ?xs1.0 = "[[3, 2, 3, 2]]" and ?xs2.0 = "[[300, 200, 250, 250]]"
        and ?h1.0 = "[]" and ?h2.0 = "[]" and q = ?q and cdf = ?c and alpha = "Fin (1/20)"]
      d1 d2 rej
    by simp
  then show ?thesis
    using r1 r2 by auto
qed

end
